theory Spec2Isabelle
  imports Complex_Main "HOL-Library.Product_Lexorder"
begin

section \<open>Numbers and exceptions\<close>

text \<open>
  The simulator computes with Python numbers: configuration values, capacities, latencies
  and the virtual clock. They are embedded as exact reals, so every comparison below is
  the comparison of the mathematical values; user counts and QoS classes are integers.
  A Python exception ends the call and is a value of type \<open>error\<close>: a result is
  \<open>Inl e\<close> when the source raises \<open>e\<close> and \<open>Inr v\<close> when it returns \<open>v\<close>.
  Objects that the source shares by reference (base stations, and through them slices)
  live in one list of the simulation state and are named by their position in it, which
  is the \<open>pk\<close> that \<open>__main__.py\<close> gives each base station. \<open>NoSuchObject\<close>
  is the lookup of a position outside that list; the source has no counterpart for it.
\<close>

datatype error = ZeroDivisionError | IndexError | AttributeError | ValueError | NoSuchObject

section \<open>The bandwidth container\<close>

text \<open>
  \<open>__main__.py\<close> gives every slice a \<open>simpy.Container(env, init=s_cap, capacity=s_cap)\<close>.
  A request for a non-positive amount raises \<open>ValueError\<close>. A request is appended to
  the queue of its kind and the queue is served from its head for as long as the head
  fits; a request that does not fit stays queued and the call returns all the same.
\<close>

record container =
  level :: real
  container_capacity :: real
  get_queue :: "real list"
  put_queue :: "real list"

fun trigger_get :: "real \<Rightarrow> real list \<Rightarrow> real \<times> real list" where
  "trigger_get lv [] = (lv, [])"
| "trigger_get lv (a # q) = (if lv \<ge> a then trigger_get (lv - a) q else (lv, a # q))"

fun trigger_put :: "real \<Rightarrow> real \<Rightarrow> real list \<Rightarrow> real \<times> real list" where
  "trigger_put cap lv [] = (lv, [])"
| "trigger_put cap lv (a # q) =
     (if cap - lv \<ge> a then trigger_put cap (lv + a) q else (lv, a # q))"

definition container_get :: "real \<Rightarrow> container \<Rightarrow> error + container" where
  "container_get amount k =
     (if amount \<le> 0 then Inl ValueError
      else (case trigger_get (level k) (get_queue k @ [amount]) of
              (lv, q) \<Rightarrow> Inr (k\<lparr>level := lv, get_queue := q\<rparr>)))"

definition container_put :: "real \<Rightarrow> container \<Rightarrow> error + container" where
  "container_put amount k =
     (if amount \<le> 0 then Inl ValueError
      else (case trigger_put (container_capacity k) (level k) (put_queue k @ [amount]) of
              (lv, q) \<Rightarrow> Inr (k\<lparr>level := lv, put_queue := q\<rparr>)))"

section \<open>Slice\<close>

text \<open>
  The fields of \<open>Slice.__init__\<close>. \<open>usage_pattern\<close> is a random distributor; its
  draws are arguments of the functions that use them. \<open>active_clients\<close> holds the
  \<open>pk\<close>s of the clients of the last allocation.
\<close>

record slice =
  name :: string
  connected_users :: int
  user_share :: real
  delay_tolerance :: real
  qos_class :: int
  ratio :: real
  bandwidth_guaranteed :: real
  bandwidth_max :: real
  init_capacity :: real
  capacity :: container
  reserved_capacity :: real
  active_clients :: "nat list"
  latency_history :: "real list"
  avg_latency :: real
  sla_violations :: nat

definition get_consumable_share :: "slice \<Rightarrow> real" where
  "get_consumable_share s =
     (if connected_users s \<le> 0 then min (init_capacity s) (bandwidth_max s)
      else if qos_class s \<le> 2 then
        (let priority_factor = 1.2;
             basic_share = min (init_capacity s / real_of_int (connected_users s)) (bandwidth_max s)
         in min (basic_share * priority_factor) (bandwidth_max s))
      else min (init_capacity s / real_of_int (connected_users s)) (bandwidth_max s))"

definition is_avaliable :: "slice \<Rightarrow> error + bool" where
  "is_avaliable s =
     (let real_cap = min (init_capacity s) (bandwidth_max s);
          available_cap = real_cap - reserved_capacity s
      in if connected_users s + 1 = 0 then Inl ZeroDivisionError
         else
           (let bandwidth_next = available_cap / real_of_int (connected_users s + 1)
            in if bandwidth_next < bandwidth_guaranteed s then Inr False
               else if qos_class s \<le> 2 \<and> avg_latency s > 0.7 * delay_tolerance s then
                 (if bandwidth_guaranteed s * 1.5 = 0 then Inl ZeroDivisionError
                  else if real_of_int (connected_users s) \<ge> real_cap / (bandwidth_guaranteed s * 1.5)
                       then Inr False
                       else Inr True)
               else Inr True))"

text \<open>
  The admission rule in the words of the specification: the effective pool is
  \<open>min(init_capacity, bandwidth_max) - reserved_capacity\<close>, and both tests divide it.
\<close>

definition is_available_spec :: "slice \<Rightarrow> bool" where
  "is_available_spec s =
     (let pool = min (init_capacity s) (bandwidth_max s) - reserved_capacity s
      in \<not> (pool / real_of_int (connected_users s + 1) < bandwidth_guaranteed s
             \<or> (qos_class s \<le> 2 \<and> avg_latency s > 0.7 * delay_tolerance s
                \<and> real_of_int (connected_users s) \<ge> pool / (1.5 * bandwidth_guaranteed s))))"

text \<open>
  \<open>_adapt_reserved_capacity\<close> looks at the last five measurements; \<open>history[-5:]\<close> on a
  list of at least five entries is the list without its first \<open>len - 5\<close> entries.
\<close>

definition adapt_reserved_capacity :: "slice \<Rightarrow> slice" where
  "adapt_reserved_capacity s =
     (if latency_history s = [] \<or> length (latency_history s) < 5 then s
      else
        (let recent = drop (length (latency_history s) - 5) (latency_history s);
             recent_avg = sum_list recent / real (length recent)
         in if recent_avg > avg_latency s \<and> recent_avg > 0.8 * delay_tolerance s then
              (let new_reserve = min (init_capacity s * 0.1)
                                     (reserved_capacity s + init_capacity s * 0.02)
               in s\<lparr>reserved_capacity := new_reserve\<rparr>)
            else if recent_avg < avg_latency s \<and> recent_avg < 0.5 * delay_tolerance s then
              s\<lparr>reserved_capacity := max 0 (reserved_capacity s - init_capacity s * 0.01)\<rparr>
            else s))"

definition update_latency_stats :: "real \<Rightarrow> slice \<Rightarrow> slice" where
  "update_latency_stats new_latency s =
     (let h1 = latency_history s @ [new_latency];
          h2 = (if length h1 > 100 then tl h1 else h1);
          s1 = s\<lparr>latency_history := h2\<rparr>;
          s2 = (if h2 \<noteq> [] then s1\<lparr>avg_latency := sum_list h2 / real (length h2)\<rparr> else s1);
          s3 = (if new_latency > delay_tolerance s2
                then s2\<lparr>sla_violations := sla_violations s2 + 1\<rparr> else s2)
      in adapt_reserved_capacity s3)"

text \<open>A slice fed a series of measurements, one call of \<open>update_latency_stats\<close> each.\<close>

definition update_latency_series :: "real list \<Rightarrow> slice \<Rightarrow> slice" where
  "update_latency_series ls s = foldl (\<lambda>s' l. update_latency_stats l s') s ls"

section \<open>Client, base station, statistics\<close>

text \<open>
  The fields of \<open>Client.__init__\<close> that the engine reads or writes. The position
  \<open>(x, y)\<close> is \<open>(client_x, client_y)\<close>; the client's own rolling average is
  \<open>client_avg_latency\<close>, since \<open>avg_latency\<close> names the slice's. \<open>base_station\<close>
  is \<open>None\<close> for an uncovered client. \<open>min_latency\<close> starts at \<open>float('inf')\<close>,
  which is \<open>None\<close> here. \<open>Client.__init__\<close> never sets \<open>allocated_bandwidth\<close>:
  the attribute is absent (\<open>None\<close>) unless something outside the class adds it, and the
  allocator's \<open>hasattr(client, 'allocated_bandwidth')\<close> is the test for \<open>Some\<close>.
\<close>

record client =
  pk :: nat
  client_x :: real
  client_y :: real
  usage_freq :: real
  base_station :: "nat option"
  subscribed_slice_index :: nat
  usage_remaining :: real
  last_usage :: real
  closest_base_stations :: "(real \<times> nat) list"
  connected :: bool
  total_connected_time :: real
  total_unconnected_time :: real
  total_request_count :: nat
  total_consume_time :: nat
  total_usage :: real
  request_start_time :: real
  latencies :: "real list"
  client_avg_latency :: real
  last_latency :: real
  max_latency :: real
  min_latency :: "real option"
  handover_count :: nat
  handover_latencies :: "real list"
  allocated_bandwidth :: "real option"

text \<open>
  \<open>BaseStation.py\<close> and \<open>Coverage.py\<close> are not among the sources; the record holds
  what \<open>Client.py\<close>, \<open>Stats.py\<close> and \<open>__main__.py\<close> read of a base station: its
  \<open>pk\<close>, the centre and radius of its coverage disk, its bandwidth and its slices.
\<close>

record base_station_rec =
  bs_pk :: nat
  center :: "real \<times> real"
  radius :: real
  capacity_bandwidth :: real
  slices :: "slice list"

text \<open>
  The counters of the statistics collector that clients write. The three per-period
  series hold reals: \<open>collect\<close> turns the counts of a finished period into ratios.
\<close>

record stats =
  area :: "(real \<times> real) \<times> (real \<times> real)"
  connect_attempt :: "real list"
  block_count :: "real list"
  stats_handover_count :: "real list"
  stats_handover_latencies :: "real list list"

record sim =
  now :: real
  base_stations :: "base_station_rec list"
  stat_collector :: stats

text \<open>
  \<open>utils.py\<close> is not among the sources. \<open>distance\<close> is its distance function.
  \<open>kdtree_run c sm\<close> is the cached list of nearest base stations that client \<open>c\<close>
  holds after \<open>assign_closest_base_station\<close> has made its guarded call of
  \<open>KDTree.run(..., assign=False)\<close>.
\<close>

record utils =
  distance :: "real \<times> real \<Rightarrow> real \<times> real \<Rightarrow> real"
  kdtree_run :: "client \<Rightarrow> sim \<Rightarrow> (real \<times> nat) list"

section \<open>The dynamic allocator\<close>

text \<open>
  \<open>Slice.dynamic_resource_allocation(clients)\<close> at virtual time \<open>t\<close>. Python's
  \<open>sorted(..., reverse=True)\<close> is stable: it reverses, sorts ascending and reverses
  again. The clients are mutated in place; the function returns them in priority order
  together with the slice.
\<close>

definition prioritize :: "real \<Rightarrow> slice \<Rightarrow> client list \<Rightarrow> client list" where
  "prioritize t s clients =
     rev (sort_key (\<lambda>c. (t - request_start_time c, delay_tolerance s, qos_class s)) (rev clients))"

definition allocate_all :: "client list \<Rightarrow> client list" where
  "allocate_all cs =
     map (\<lambda>c. case allocated_bandwidth c of
                 None \<Rightarrow> c
               | Some _ \<Rightarrow> c\<lparr>allocated_bandwidth := Some (usage_remaining c)\<rparr>) cs"

fun first_pass :: "slice \<Rightarrow> real \<Rightarrow> client list \<Rightarrow> client list \<times> real" where
  "first_pass s remaining_capacity [] = ([], remaining_capacity)"
| "first_pass s remaining_capacity (c # cs) =
     (case allocated_bandwidth c of
        None \<Rightarrow> (case first_pass s remaining_capacity cs of (cs', r) \<Rightarrow> (c # cs', r))
      | Some _ \<Rightarrow>
          (let min_alloc = min (bandwidth_guaranteed s) (usage_remaining c)
           in case first_pass s (remaining_capacity - min_alloc) cs of
                (cs', r) \<Rightarrow> (c\<lparr>allocated_bandwidth := Some min_alloc\<rparr> # cs', r)))"

fun second_pass :: "real \<Rightarrow> slice \<Rightarrow> real \<Rightarrow> client list \<Rightarrow> error + client list" where
  "second_pass t s remaining_capacity [] = Inr []"
| "second_pass t s remaining_capacity (c # cs) =
     (case allocated_bandwidth c of
        None \<Rightarrow> (case second_pass t s remaining_capacity cs of
                   Inl e \<Rightarrow> Inl e | Inr cs' \<Rightarrow> Inr (c # cs'))
      | Some a \<Rightarrow>
          if delay_tolerance s = 0 then Inl ZeroDivisionError
          else
            (let time_factor = min 1 ((t - request_start_time c) / delay_tolerance s);
                 qos_weight = (5 - real_of_int (qos_class s)) / 5;
                 priority = time_factor * qos_weight;
                 additional = min (remaining_capacity * priority) (usage_remaining c - a);
                 c' = c\<lparr>allocated_bandwidth := Some (a + additional)\<rparr>;
                 remaining' = remaining_capacity - additional
             in if remaining' \<le> 0 then Inr (c' # cs)
                else (case second_pass t s remaining' cs of
                        Inl e \<Rightarrow> Inl e | Inr cs' \<Rightarrow> Inr (c' # cs'))))"

definition dynamic_resource_allocation ::
  "real \<Rightarrow> client list \<Rightarrow> slice \<Rightarrow> error + (client list \<times> slice)" where
  "dynamic_resource_allocation t clients s =
     (if clients = [] then Inr (clients, s)
      else
        (let s1 = s\<lparr>active_clients := map pk clients\<rparr>;
             prioritized_clients = prioritize t s clients;
             total_demand = sum_list (map usage_remaining prioritized_clients);
             available_capacity = level (capacity s) - reserved_capacity s
         in if total_demand \<le> available_capacity then Inr (allocate_all prioritized_clients, s1)
            else
              (case first_pass s available_capacity prioritized_clients of
                 (cs1, remaining_capacity) \<Rightarrow>
                   if remaining_capacity > 0 then
                     (case second_pass t s remaining_capacity cs1 of
                        Inl e \<Rightarrow> Inl e | Inr cs2 \<Rightarrow> Inr (cs2, s1))
                   else Inr (cs1, s1))))"
section \<open>The statistics collector's counters\<close>

definition is_client_in_coverage :: "stats \<Rightarrow> client \<Rightarrow> bool" where
  "is_client_in_coverage st c =
     (case area st of
        (xs, ys) \<Rightarrow> fst xs \<le> client_x c \<and> client_x c \<le> snd xs
                  \<and> fst ys \<le> client_y c \<and> client_y c \<le> snd ys)"

text \<open>\<open>series[-1] += 1\<close>: Python raises \<open>IndexError\<close> on an empty list.\<close>

definition incr_last :: "real list \<Rightarrow> error + real list" where
  "incr_last xs = (if xs = [] then Inl IndexError else Inr (butlast xs @ [last xs + 1]))"

definition incr_connect_attempt :: "client \<Rightarrow> stats \<Rightarrow> error + stats" where
  "incr_connect_attempt c st =
     (if is_client_in_coverage st c then
        (case incr_last (connect_attempt st) of
           Inl e \<Rightarrow> Inl e | Inr xs \<Rightarrow> Inr (st\<lparr>connect_attempt := xs\<rparr>))
      else Inr st)"

definition incr_block_count :: "client \<Rightarrow> stats \<Rightarrow> error + stats" where
  "incr_block_count c st =
     (if is_client_in_coverage st c then
        (case incr_last (block_count st) of
           Inl e \<Rightarrow> Inl e | Inr xs \<Rightarrow> Inr (st\<lparr>block_count := xs\<rparr>))
      else Inr st)"

definition incr_handover_count :: "client \<Rightarrow> stats \<Rightarrow> error + stats" where
  "incr_handover_count c st =
     (if is_client_in_coverage st c then
        (case incr_last (stats_handover_count st) of
           Inl e \<Rightarrow> Inl e | Inr xs \<Rightarrow> Inr (st\<lparr>stats_handover_count := xs\<rparr>))
      else Inr st)"

text \<open>
  The end of one aggregation in \<open>Stats.collect\<close> ("Reset counters for next period"):
  a fresh zero is appended to each of the three series.
\<close>

definition reset_counters :: "stats \<Rightarrow> stats" where
  "reset_counters st =
     st\<lparr>connect_attempt := connect_attempt st @ [0],
        block_count := block_count st @ [0],
        stats_handover_count := stats_handover_count st @ [0]\<rparr>"

text \<open>
  \<open>int(self.env.now)\<close>: the virtual clock is never negative, so truncation is the floor.
\<close>

definition int_now :: "real \<Rightarrow> nat" where
  "int_now t = nat \<lfloor>t\<rfloor>"

definition record_latency :: "real \<Rightarrow> client \<Rightarrow> real \<Rightarrow> stats \<Rightarrow> stats" where
  "record_latency t c latency st =
     (if handover_latencies c \<noteq> [] then
        (let n = int_now t;
             hl = stats_handover_latencies st;
             hl' = (if length hl \<le> n then hl @ replicate (n - length hl + 1) [] else hl)
         in st\<lparr>stats_handover_latencies := hl'[n := hl' ! n @ [last (handover_latencies c)]]\<rparr>)
      else st)"

section \<open>Client operations\<close>

definition get_slice :: "client \<Rightarrow> sim \<Rightarrow> error + slice option" where
  "get_slice c sm =
     (case base_station c of
        None \<Rightarrow> Inr None
      | Some b \<Rightarrow>
          if b < length (base_stations sm) then
            (let sl = slices (base_stations sm ! b)
             in if subscribed_slice_index c < length sl
                then Inr (Some (sl ! subscribed_slice_index c))
                else Inl IndexError)
          else Inl NoSuchObject)"

text \<open>
  Writing a field of the client's slice: the slice object is shared, so the write goes to
  the base station's list.
\<close>

definition set_slice :: "client \<Rightarrow> slice \<Rightarrow> sim \<Rightarrow> sim" where
  "set_slice c s sm =
     (case base_station c of
        None \<Rightarrow> sm
      | Some b \<Rightarrow>
          sm\<lparr>base_stations :=
               (base_stations sm)
                 [b := (base_stations sm ! b)
                         \<lparr>slices := (slices (base_stations sm ! b))[subscribed_slice_index c := s]\<rparr>]\<rparr>)"

definition client_update_latency_stats :: "real \<Rightarrow> client \<Rightarrow> sim \<Rightarrow> error + (client \<times> sim)" where
  "client_update_latency_stats new_latency c sm =
     (let c1 = c\<lparr>last_latency := new_latency\<rparr>;
          c2 = (if new_latency > max_latency c1 then c1\<lparr>max_latency := new_latency\<rparr> else c1);
          c3 = (if (case min_latency c2 of None \<Rightarrow> True | Some m \<Rightarrow> new_latency < m)
                then c2\<lparr>min_latency := Some new_latency\<rparr> else c2)
      in if latencies c3 = [] then Inl ZeroDivisionError
         else
           (let c4 = c3\<lparr>client_avg_latency := sum_list (latencies c3) / real (length (latencies c3))\<rparr>
            in Inr (c4, sm\<lparr>stat_collector := record_latency (now sm) c4 new_latency (stat_collector sm)\<rparr>)))"

text \<open>
  \<open>assign_closest_base_station\<close>: the candidates are scored in the order of the cached
  list, sorted by score (\<open>list.sort\<close> is stable) and the first one within its radius wins.
\<close>

fun score_candidates ::
  "utils \<Rightarrow> client \<Rightarrow> sim \<Rightarrow> nat list option \<Rightarrow> (real \<times> nat) list \<Rightarrow> error + (real \<times> real \<times> nat) list" where
  "score_candidates u c sm exclude [] = Inr []"
| "score_candidates u c sm exclude ((d0, b) # rest) =
     (if \<not> b < length (base_stations sm) then Inl NoSuchObject
      else
        (let bs = base_stations sm ! b
         in if (case exclude of None \<Rightarrow> False | Some ex \<Rightarrow> bs_pk bs \<in> set ex)
            then score_candidates u c sm exclude rest
            else
              (let d = distance u (client_x c, client_y c) (center bs)
               in case (if length (slices bs) > subscribed_slice_index c then
                          (let target_slice = slices bs ! subscribed_slice_index c
                           in if container_capacity (capacity target_slice) = 0
                              then Inl ZeroDivisionError
                              else Inr (1 - level (capacity target_slice)
                                              / container_capacity (capacity target_slice)))
                        else Inr 0) of
                    Inl e \<Rightarrow> Inl e
                  | Inr slice_load \<Rightarrow>
                      (case score_candidates u c sm exclude rest of
                         Inl e \<Rightarrow> Inl e
                       | Inr updated_list \<Rightarrow> Inr ((d * (1 + slice_load), d, b) # updated_list)))))"

definition assign_closest_base_station ::
  "utils \<Rightarrow> nat list option \<Rightarrow> client \<Rightarrow> sim \<Rightarrow> error + client" where
  "assign_closest_base_station u exclude c sm =
     (case score_candidates u c sm exclude (closest_base_stations c) of
        Inl e \<Rightarrow> Inl e
      | Inr updated_list \<Rightarrow>
          (case find (\<lambda>(score, d, b). d \<le> radius (base_stations sm ! b))
                     (sort_key fst updated_list) of
             Some (score, d, b) \<Rightarrow> Inr (c\<lparr>base_station := Some b\<rparr>)
           | None \<Rightarrow> Inr (c\<lparr>closest_base_stations := kdtree_run u c sm, base_station := None\<rparr>)))"

text \<open>
  \<open>connect\<close> returns nothing when the client is already connected, \<open>True\<close> on admission
  and \<open>False\<close> on refusal. The log lines evaluate \<open>self.get_slice()\<close>, which can raise.
  \<open>handover_or_block\<close> is the end of the refusal branch (from the second
  \<open>is_avaliable\<close> test to \<open>return False\<close>), where \<open>st1\<close> is the collector after the
  attempt has been counted.
\<close>

definition handover_or_block ::
  "client \<Rightarrow> stats \<Rightarrow> sim \<Rightarrow> error + (bool option \<times> client \<times> sim)" where
  "handover_or_block c2 st1 sm =
     (case get_slice c2 sm of
        Inl e \<Rightarrow> Inl e
      | Inr None \<Rightarrow> Inr (Some False, c2, sm\<lparr>stat_collector := st1\<rparr>)
      | Inr (Some s2) \<Rightarrow>
          (case is_avaliable s2 of
             Inl e \<Rightarrow> Inl e
           | Inr True \<Rightarrow>
               (case incr_handover_count c2 st1 of
                  Inl e \<Rightarrow> Inl e
                | Inr st2 \<Rightarrow>
                    Inr (Some False, c2\<lparr>handover_count := handover_count c2 + 1\<rparr>,
                         sm\<lparr>stat_collector := st2\<rparr>))
           | Inr False \<Rightarrow>
               (case incr_block_count c2 st1 of
                  Inl e \<Rightarrow> Inl e
                | Inr st2 \<Rightarrow> Inr (Some False, c2, sm\<lparr>stat_collector := st2\<rparr>))))"

definition connect :: "utils \<Rightarrow> client \<Rightarrow> sim \<Rightarrow> error + (bool option \<times> client \<times> sim)" where
  "connect u c sm =
     (case get_slice c sm of
        Inl e \<Rightarrow> Inl e
      | Inr so \<Rightarrow>
          if connected c then Inr (None, c, sm)
          else
            (case incr_connect_attempt c (stat_collector sm) of
               Inl e \<Rightarrow> Inl e
             | Inr st1 \<Rightarrow>
                 (case so of
                    None \<Rightarrow> Inl AttributeError
                  | Some s \<Rightarrow>
                      (case is_avaliable s of
                         Inl e \<Rightarrow> Inl e
                       | Inr True \<Rightarrow>
                           (let sm1 = set_slice c (s\<lparr>connected_users := connected_users s + 1\<rparr>)
                                        (sm\<lparr>stat_collector := st1\<rparr>);
                                connection_latency = now sm - request_start_time c;
                                c1 = c\<lparr>connected := True,
                                       latencies := latencies c @ [connection_latency]\<rparr>
                            in case client_update_latency_stats connection_latency c1 sm1 of
                                 Inl e \<Rightarrow> Inl e
                               | Inr (c2, sm2) \<Rightarrow>
                                   (case get_slice c2 sm2 of
                                      Inl e \<Rightarrow> Inl e
                                    | Inr _ \<Rightarrow> Inr (Some True, c2, sm2)))
                       | Inr False \<Rightarrow>
                           (case base_station c of
                              None \<Rightarrow> Inl AttributeError
                            | Some old_bs \<Rightarrow>
                                (case assign_closest_base_station u
                                        (Some [bs_pk (base_stations sm ! old_bs)]) c sm of
                                   Inl e \<Rightarrow> Inl e
                                 | Inr c1 \<Rightarrow>
                                     (let handover_latency = now sm - now sm;
                                          c2 = (if base_station c1 \<noteq> None
                                                   \<and> base_station c1 \<noteq> Some old_bs
                                                then c1\<lparr>handover_latencies :=
                                                          handover_latencies c1 @ [handover_latency]\<rparr>
                                                else c1)
                                      in handover_or_block c2 st1 sm)))))))"

definition disconnect :: "client \<Rightarrow> sim \<Rightarrow> error + (bool \<times> client \<times> sim)" where
  "disconnect c sm =
     (if connected c = False then
        (case get_slice c sm of
           Inl e \<Rightarrow> Inl e
         | Inr _ \<Rightarrow> Inr (\<not> connected c, c, sm))
      else
        (case get_slice c sm of
           Inl e \<Rightarrow> Inl e
         | Inr None \<Rightarrow> Inl AttributeError
         | Inr (Some s) \<Rightarrow>
             (let sm1 = set_slice c (s\<lparr>connected_users := connected_users s - 1\<rparr>) sm;
                  c1 = c\<lparr>connected := False\<rparr>
              in Inr (\<not> connected c1, c1, sm1))))"

definition start_consume :: "client \<Rightarrow> sim \<Rightarrow> error + (client \<times> sim)" where
  "start_consume c sm =
     (case get_slice c sm of
        Inl e \<Rightarrow> Inl e
      | Inr None \<Rightarrow> Inl AttributeError
      | Inr (Some s) \<Rightarrow>
          (let c1 = c\<lparr>request_start_time := now sm\<rparr>;
               amount0 = min (get_consumable_share s) (usage_remaining c1);
               amount = (if delay_tolerance s < 10
                         then min (amount0 * 1.2) (usage_remaining c1) else amount0)
           in case container_get amount (capacity s) of
                Inl e \<Rightarrow> Inl e
              | Inr k \<Rightarrow> Inr (c1\<lparr>last_usage := amount\<rparr>, set_slice c1 (s\<lparr>capacity := k\<rparr>) sm)))"

definition release_consume :: "client \<Rightarrow> sim \<Rightarrow> error + (client \<times> sim)" where
  "release_consume c sm =
     (case get_slice c sm of
        Inl e \<Rightarrow> Inl e
      | Inr so \<Rightarrow>
          if last_usage c > 0 then
            (case so of
               None \<Rightarrow> Inl AttributeError
             | Some s \<Rightarrow>
                 (case container_put (last_usage c) (capacity s) of
                    Inl e \<Rightarrow> Inl e
                  | Inr k \<Rightarrow>
                      (let sm1 = set_slice c (s\<lparr>capacity := k\<rparr>) sm;
                           service_latency = now sm - request_start_time c;
                           c1 = c\<lparr>latencies := latencies c @ [service_latency]\<rparr>
                       in case client_update_latency_stats service_latency c1 sm1 of
                            Inl e \<Rightarrow> Inl e
                          | Inr (c2, sm2) \<Rightarrow>
                              Inr (c2\<lparr>total_consume_time := total_consume_time c2 + 1,
                                      total_usage := total_usage c2 + last_usage c2,
                                      usage_remaining := usage_remaining c2 - last_usage c2,
                                      last_usage := 0\<rparr>, sm2))))
          else Inr (c, sm))"

text \<open>
  \<open>generate_usage_and_connect\<close>: \<open>r\<close> is the draw of \<open>random.random()\<close> and \<open>usage\<close>
  the draw of the slice's usage pattern.
\<close>

definition generate_usage_and_connect ::
  "utils \<Rightarrow> real \<Rightarrow> real \<Rightarrow> client \<Rightarrow> sim \<Rightarrow> error + (client \<times> sim)" where
  "generate_usage_and_connect u r usage c sm =
     (if usage_freq c < r then
        (case get_slice c sm of
           Inl e \<Rightarrow> Inl e
         | Inr None \<Rightarrow> Inr (c, sm)
         | Inr (Some _) \<Rightarrow>
             (let c1 = c\<lparr>usage_remaining := usage,
                         total_request_count := total_request_count c + 1,
                         request_start_time := now sm\<rparr>
              in case connect u c1 sm of
                   Inl e \<Rightarrow> Inl e
                 | Inr (_, c2, sm2) \<Rightarrow> Inr (c2, sm2)))
      else Inr (c, sm))"

text \<open>The Lock phase (offset .00) and the Release phase (offset .50) of \<open>Client.iter\<close>.\<close>

definition iter_lock :: "utils \<Rightarrow> real \<Rightarrow> real \<Rightarrow> client \<Rightarrow> sim \<Rightarrow> error + (client \<times> sim)" where
  "iter_lock u r usage c sm =
     (if base_station c \<noteq> None then
        (if usage_remaining c > 0 then
           (if connected c then start_consume c sm
            else (case connect u (c\<lparr>request_start_time := now sm\<rparr>) sm of
                    Inl e \<Rightarrow> Inl e
                  | Inr (_, c1, sm1) \<Rightarrow> Inr (c1, sm1)))
         else
           (if connected c then
              (case disconnect c sm of
                 Inl e \<Rightarrow> Inl e
               | Inr (_, c1, sm1) \<Rightarrow> Inr (c1, sm1))
            else generate_usage_and_connect u r usage c sm))
      else Inr (c, sm))"

definition iter_release :: "client \<Rightarrow> sim \<Rightarrow> error + (client \<times> sim)" where
  "iter_release c sm =
     (if connected c \<and> last_usage c > 0 then
        (case release_consume c sm of
           Inl e \<Rightarrow> Inl e
         | Inr (c1, sm1) \<Rightarrow>
             if usage_remaining c1 \<le> 0 then
               (case disconnect c1 sm1 of
                  Inl e \<Rightarrow> Inl e
                | Inr (_, c2, sm2) \<Rightarrow> Inr (c2, sm2))
             else Inr (c1, sm1))
      else Inr (c, sm))"

section \<open>One aggregation period\<close>

text \<open>
  Between two aggregations of \<open>Stats.collect\<close> the three counter series are written by
  \<open>connect\<close> only, through \<open>incr_connect_attempt\<close>, \<open>incr_block_count\<close> and
  \<open>incr_handover_count\<close>. A period is therefore a list of \<open>connect\<close> calls, each by
  some client in some state of the simulation; whatever ran in between has changed that
  state but not the three series, which \<open>with_counters\<close> carries from call to call.
\<close>

definition with_counters :: "stats \<Rightarrow> stats \<Rightarrow> stats" where
  "with_counters cur st =
     st\<lparr>connect_attempt := connect_attempt cur,
        block_count := block_count cur,
        stats_handover_count := stats_handover_count cur\<rparr>"

fun connect_calls :: "utils \<Rightarrow> (client \<times> sim) list \<Rightarrow> stats \<Rightarrow> error + stats" where
  "connect_calls u [] cur = Inr cur"
| "connect_calls u ((c, sm) # rest) cur =
     (case connect u c (sm\<lparr>stat_collector := with_counters cur (stat_collector sm)\<rparr>) of
        Inl e \<Rightarrow> Inl e
      | Inr (_, _, sm') \<Rightarrow> connect_calls u rest (stat_collector sm'))"

section \<open>The consume amount in the words of the specification\<close>

text \<open>
  The specification's reading of the Lock phase: the client consumes the allocator's
  \<open>allocated_bandwidth\<close> when the field is present and \<open>get_consumable_share()\<close>
  otherwise.
\<close>

definition consume_amount_spec :: "client \<Rightarrow> slice \<Rightarrow> real" where
  "consume_amount_spec c s =
     (case allocated_bandwidth c of Some a \<Rightarrow> a | None \<Rightarrow> get_consumable_share s)"

section \<open>Example networks\<close>

text \<open>Concrete slices, clients and networks on which the theorems below are evaluated.\<close>

definition example_container :: "real \<Rightarrow> container" where
  "example_container c = \<lparr>level = c, container_capacity = c, get_queue = [], put_queue = []\<rparr>"

definition example_slice :: slice where
  "example_slice =
     \<lparr>name = ''urllc'', connected_users = 6, user_share = 1, delay_tolerance = 10,
      qos_class = 1, ratio = 1, bandwidth_guaranteed = 1, bandwidth_max = 10,
      init_capacity = 10, capacity = example_container 10, reserved_capacity = 1,
      active_clients = [], latency_history = [], avg_latency = 8, sla_violations = 0\<rparr>"

definition fresh_slice :: slice where
  "fresh_slice = example_slice\<lparr>connected_users := 0, reserved_capacity := 0, avg_latency := 0\<rparr>"

text \<open>
  A small network for the examples: station 0 at the origin carries a slice that admits
  nobody (nine users on a pool of nine), station 1 carries a slice with no users. Distances
  are measured along the axes; the spatial index returns the cached list as it is.
\<close>

definition example_utils :: utils where
  "example_utils =
     \<lparr>distance = (\<lambda>p q. \<bar>fst p - fst q\<bar> + \<bar>snd p - snd q\<bar>),
      kdtree_run = (\<lambda>c sm. closest_base_stations c)\<rparr>"

definition example_stats :: stats where
  "example_stats =
     \<lparr>area = ((0, 100), (0, 100)), connect_attempt = [], block_count = [],
      stats_handover_count = [], stats_handover_latencies = []\<rparr>"

definition example_sim :: sim where
  "example_sim =
     \<lparr>now = 3,
      base_stations =
        [\<lparr>bs_pk = 0, center = (0, 0), radius = 10, capacity_bandwidth = 10,
          slices = [example_slice\<lparr>connected_users := 9\<rparr>]\<rparr>,
         \<lparr>bs_pk = 1, center = (5, 0), radius = 10, capacity_bandwidth = 10,
          slices = [fresh_slice]\<rparr>],
      stat_collector = reset_counters example_stats\<rparr>"

definition example_client :: client where
  "example_client =
     \<lparr>pk = 0, client_x = 1, client_y = 0, usage_freq = 0.5, base_station = Some 0,
      subscribed_slice_index = 0, usage_remaining = 5, last_usage = 0,
      closest_base_stations = [(1, 0), (4, 1)], connected = False,
      total_connected_time = 0, total_unconnected_time = 0, total_request_count = 1,
      total_consume_time = 0, total_usage = 0, request_start_time = 3, latencies = [],
      client_avg_latency = 0, last_latency = 0, max_latency = 0, min_latency = None,
      handover_count = 0, handover_latencies = [], allocated_bandwidth = None\<rparr>"

definition example_counted :: stats where
  "example_counted =
     example_stats\<lparr>connect_attempt := [1], block_count := [0], stats_handover_count := [1]\<rparr>"

text \<open>
  A network of one station with one slice \<open>sl\<close>, and a connected client with 20 units
  still to consume.
\<close>

definition single_sim :: "slice \<Rightarrow> sim" where
  "single_sim sl =
     \<lparr>now = 3,
      base_stations =
        [\<lparr>bs_pk = 0, center = (0, 0), radius = 10, capacity_bandwidth = 10, slices = [sl]\<rparr>],
      stat_collector = reset_counters example_stats\<rparr>"

definition busy_client :: client where
  "busy_client = example_client\<lparr>connected := True, usage_remaining := 20\<rparr>"

section \<open>Facts about the example network\<close>

lemma example_get_slice:
  "get_slice example_client example_sim = Inr (Some (example_slice\<lparr>connected_users := 9\<rparr>))"
  by (simp add: get_slice_def example_client_def example_sim_def)

lemma example_refused: "is_avaliable (example_slice\<lparr>connected_users := 9\<rparr>) = Inr False"
  by (simp add: is_avaliable_def example_slice_def)

lemma example_free: "is_avaliable fresh_slice = Inr True"
  by (simp add: is_avaliable_def fresh_slice_def example_slice_def)

section \<open>The consume step\<close>

lemma trigger_get_nonneg:
  "trigger_get lv q = (lv', q') \<Longrightarrow> 0 \<le> lv \<Longrightarrow> 0 \<le> lv'"
  by (induction lv q rule: trigger_get.induct) (auto split: if_splits)

lemma container_get_level:
  assumes "container_get amount k = Inr k'" and "0 \<le> level k"
  shows "0 < amount" "0 \<le> level k'"
    "get_queue k = [] \<Longrightarrow>
       (if amount \<le> level k then level k' = level k - amount \<and> get_queue k' = []
        else level k' = level k \<and> get_queue k' = [amount])"
  using assms
  by (auto simp add: container_get_def split: if_splits prod.splits dest: trigger_get_nonneg)

lemma get_slice_frame:
  "get_slice (c\<lparr>request_start_time := t\<rparr>) sm = get_slice c sm"
  "get_slice (c\<lparr>last_usage := a\<rparr>) sm = get_slice c sm"
  "get_slice (c\<lparr>allocated_bandwidth := ab\<rparr>) sm = get_slice c sm"
  by (simp_all add: get_slice_def Let_def split: option.splits)

lemma set_slice_frame:
  "set_slice (c\<lparr>request_start_time := t\<rparr>) s sm = set_slice c s sm"
  "set_slice (c\<lparr>last_usage := a\<rparr>) s sm = set_slice c s sm"
  "set_slice (c\<lparr>allocated_bandwidth := ab\<rparr>) s sm = set_slice c s sm"
  by (simp_all add: set_slice_def split: option.splits)

lemma get_set_slice:
  assumes "get_slice c sm = Inr (Some s)"
  shows "get_slice c (set_slice c s' sm) = Inr (Some s')"
  using assms
  by (auto simp add: get_slice_def set_slice_def Let_def split: option.splits if_splits)

text \<open>The amount that \<open>start_consume\<close> computes and passes to the container.\<close>

lemma start_consume_result:
  assumes "get_slice c sm = Inr (Some s)"
    and "amount = (if delay_tolerance s < 10
                   then min (min (get_consumable_share s) (usage_remaining c) * 1.2) (usage_remaining c)
                   else min (get_consumable_share s) (usage_remaining c))"
  shows "start_consume c sm =
           (case container_get amount (capacity s) of
              Inl e \<Rightarrow> Inl e
            | Inr k \<Rightarrow> Inr (c\<lparr>request_start_time := now sm, last_usage := amount\<rparr>,
                           set_slice c (s\<lparr>capacity := k\<rparr>) sm))"
  using assms by (simp add: start_consume_def Let_def set_slice_frame split: sum.splits)

lemma iter_lock_consume:
  assumes "connected c" "usage_remaining c > 0" "get_slice c sm = Inr (Some s)"
  shows "iter_lock u r usage c sm = start_consume c sm"
proof -
  from assms(3) have "base_station c \<noteq> None"
    by (auto simp add: get_slice_def split: option.splits)
  with assms show ?thesis by (simp add: iter_lock_def)
qed

lemma container_get_returns:
  "0 < amount \<Longrightarrow> \<exists>k'. container_get amount k = Inr k'"
  by (simp add: container_get_def split: prod.splits)

lemma single_get_slice:
  "get_slice (busy_client\<lparr>allocated_bandwidth := a, pk := n\<rparr>) (single_sim sl) = Inr (Some sl)"
  "get_slice busy_client (single_sim sl) = Inr (Some sl)"
  by (simp_all add: get_slice_def busy_client_def example_client_def single_sim_def)

lemma busy_client_fields:
  "connected (busy_client\<lparr>allocated_bandwidth := a, pk := n\<rparr>)"
  "usage_remaining (busy_client\<lparr>allocated_bandwidth := a, pk := n\<rparr>) = 20"
  "connected busy_client" "usage_remaining busy_client = 20"
  "request_start_time busy_client = 3" "pk busy_client = 0"
  "allocated_bandwidth busy_client = None"
  by (simp_all add: busy_client_def example_client_def)

lemma crowded_share:
  "get_consumable_share (fresh_slice\<lparr>connected_users := 1, active_clients := l\<rparr>) = 10"
  "get_consumable_share (fresh_slice\<lparr>connected_users := 2, capacity := k\<rparr>) = 6"
  "get_consumable_share (fresh_slice\<lparr>connected_users := 2\<rparr>) = 6"
  by (simp_all add: get_consumable_share_def fresh_slice_def example_slice_def)

lemma fresh_slice_fields:
  "delay_tolerance fresh_slice = 10" "capacity fresh_slice = example_container 10"
  "bandwidth_guaranteed fresh_slice = 1" "qos_class fresh_slice = 1"
  "reserved_capacity fresh_slice = 0"
  by (simp_all add: fresh_slice_def example_slice_def)

lemma single_sim_fields:
  "now (single_sim sl) = 3"
  "set_slice busy_client s' (single_sim sl) = single_sim s'"
  "set_slice (busy_client\<lparr>pk := n\<rparr>) s' (single_sim sl) = single_sim s'"
  "get_slice (busy_client\<lparr>pk := n\<rparr>) (single_sim sl) = Inr (Some sl)"
  by (simp_all add: set_slice_def get_slice_def single_sim_def busy_client_def example_client_def)

lemma busy_client_restart:
  "busy_client\<lparr>request_start_time := 3, last_usage := a\<rparr> = busy_client\<lparr>last_usage := a\<rparr>"
  "busy_client\<lparr>pk := n, request_start_time := 3, last_usage := a\<rparr>
     = busy_client\<lparr>pk := n, last_usage := a\<rparr>"
  by (simp_all add: busy_client_def example_client_def)

lemma busy_client_consumes:
  "iter_lock example_utils 0 0 busy_client (single_sim (fresh_slice\<lparr>connected_users := 2\<rparr>))
     = Inr (busy_client\<lparr>last_usage := 6\<rparr>,
            single_sim (fresh_slice\<lparr>connected_users := 2,
                                    capacity := (example_container 10)\<lparr>level := 4\<rparr>\<rparr>))"
proof -
  let ?s = "fresh_slice\<lparr>connected_users := 2\<rparr>"
  have gs: "get_slice busy_client (single_sim ?s) = Inr (Some ?s)"
    by (simp add: single_get_slice)
  have "iter_lock example_utils 0 0 busy_client (single_sim ?s) = start_consume busy_client (single_sim ?s)"
    by (rule iter_lock_consume [OF _ _ gs]) (simp_all add: busy_client_fields)
  also have "\<dots> = Inr (busy_client\<lparr>last_usage := 6\<rparr>,
            single_sim (fresh_slice\<lparr>connected_users := 2,
                                    capacity := (example_container 10)\<lparr>level := 4\<rparr>\<rparr>))"
    by (simp add: start_consume_result [OF gs refl] crowded_share fresh_slice_fields
          busy_client_fields container_get_def example_container_def single_sim_fields
          busy_client_restart)
  finally show ?thesis .
qed

section \<open>Admission control\<close>

text \<open>
  C2 (as stated, refuted). The claim divides the pool, that is the capacity with the
  reservation taken off, in both admission tests. The source divides the pool in the first
  test only; the latency test divides \<open>real_cap = min(init_capacity, bandwidth_max)\<close>.
  With capacity 10, reservation 1, guarantee 1, six users, QoS class 1 and an average
  latency of 8 against a tolerance of 10, the claim's rule rejects (6 \<ge> 9 / 1.5) and
  \<open>is_avaliable\<close> accepts (6 < 10 / 1.5).
\<close>

theorem C2_counterexample:
  "is_avaliable example_slice = Inr True \<and> is_available_spec example_slice = False"
  by (simp add: is_avaliable_def is_available_spec_def example_slice_def)

text \<open>
  C2 (amended). When neither division is by zero, \<open>is_avaliable\<close> returns false exactly
  when \<open>pool / (connected_users + 1) < bandwidth_guaranteed\<close>, or \<open>qos_class \<le> 2\<close> and
  \<open>avg_latency > 0.7 * delay_tolerance\<close> and
  \<open>connected_users \<ge> min(init_capacity, bandwidth_max) / (1.5 * bandwidth_guaranteed)\<close>;
  otherwise it returns true.
\<close>

theorem C2_is_avaliable_rule:
  assumes "connected_users s + 1 \<noteq> 0" and "bandwidth_guaranteed s \<noteq> 0"
  shows "is_avaliable s =
           Inr (\<not> ((min (init_capacity s) (bandwidth_max s) - reserved_capacity s)
                      / real_of_int (connected_users s + 1) < bandwidth_guaranteed s
                   \<or> (qos_class s \<le> 2 \<and> avg_latency s > 0.7 * delay_tolerance s
                      \<and> real_of_int (connected_users s)
                           \<ge> min (init_capacity s) (bandwidth_max s)
                               / (1.5 * bandwidth_guaranteed s))))"
  using assms by (auto simp add: is_avaliable_def Let_def mult.commute)

theorem C2_is_avaliable_rule_witness:
  "connected_users example_slice + 1 \<noteq> 0 \<and> bandwidth_guaranteed example_slice \<noteq> 0
   \<and> is_avaliable example_slice = Inr True
   \<and> is_avaliable (example_slice\<lparr>connected_users := 7\<rparr>) = Inr False
   \<and> is_avaliable (example_slice\<lparr>connected_users := 9\<rparr>) = Inr False"
  using C2_is_avaliable_rule [of example_slice]
        C2_is_avaliable_rule [of "example_slice\<lparr>connected_users := 7\<rparr>"]
        C2_is_avaliable_rule [of "example_slice\<lparr>connected_users := 9\<rparr>"]
  by (simp add: example_slice_def)

section \<open>Admission is monotone\<close>

lemma div_less_mono_aux:
  fixes a a' m m' g :: real
  assumes "a / m < g" "a' \<le> a" "0 < m" "m \<le> m'" "0 \<le> g"
  shows "a' / m' < g"
proof -
  from assms(1,3) have "a < g * m" by (simp add: pos_divide_less_eq)
  moreover have "g * m \<le> g * m'" using assms(4,5) by (simp add: mult_left_mono)
  ultimately have "a' < g * m'" using assms(2) by linarith
  moreover have "0 < m'" using assms(3,4) by linarith
  ultimately show ?thesis by (simp add: pos_divide_less_eq)
qed

text \<open>
  C4. A slice has a user count that is not negative and a guaranteed bandwidth that is
  not negative. If \<open>is_avaliable\<close> returns false for such a slice, it still returns
  false after the user count and the reservation have grown (or stayed) and every other
  field, the average latency among them, is as before.
\<close>

theorem C4_admission_monotone:
  assumes rej: "is_avaliable s = Inr False"
    and cu: "0 \<le> connected_users s" and bg: "0 \<le> bandwidth_guaranteed s"
    and n: "connected_users s \<le> n" and r: "reserved_capacity s \<le> r"
  shows "is_avaliable (s\<lparr>connected_users := n, reserved_capacity := r\<rparr>) = Inr False"
proof (cases "(min (init_capacity s) (bandwidth_max s) - reserved_capacity s)
                / real_of_int (connected_users s + 1) < bandwidth_guaranteed s")
  case True
  have "(min (init_capacity s) (bandwidth_max s) - r) / real_of_int (n + 1) < bandwidth_guaranteed s"
    by (rule div_less_mono_aux [OF True]) (use cu n r bg in auto)
  then show ?thesis using cu n by (simp add: is_avaliable_def)
next
  case False
  with rej cu have
    "qos_class s \<le> 2" "avg_latency s > 0.7 * delay_tolerance s" "bandwidth_guaranteed s * 1.5 \<noteq> 0"
    "real_of_int (connected_users s) \<ge> min (init_capacity s) (bandwidth_max s) / (bandwidth_guaranteed s * 1.5)"
    by (auto simp add: is_avaliable_def Let_def split: if_splits)
  then show ?thesis using cu n by (auto simp add: is_avaliable_def Let_def)
qed

theorem C4_admission_monotone_witness:
  "is_avaliable (example_slice\<lparr>connected_users := 7\<rparr>) = Inr False
   \<and> 0 \<le> connected_users (example_slice\<lparr>connected_users := 7\<rparr>)
   \<and> 0 \<le> bandwidth_guaranteed (example_slice\<lparr>connected_users := 7\<rparr>)
   \<and> is_avaliable (example_slice\<lparr>connected_users := 8, reserved_capacity := 1\<rparr>) = Inr False"
proof -
  have rej: "is_avaliable (example_slice\<lparr>connected_users := 7\<rparr>) = Inr False"
    by (simp add: is_avaliable_def example_slice_def)
  show ?thesis
    using rej C4_admission_monotone [OF rej, of 8 1]
    by (simp add: example_slice_def)
qed

section \<open>The adaptive reservation\<close>

lemma adapt_reserved_capacity_frame:
  "init_capacity (adapt_reserved_capacity s) = init_capacity s"
  "delay_tolerance (adapt_reserved_capacity s) = delay_tolerance s"
  "avg_latency (adapt_reserved_capacity s) = avg_latency s"
  "latency_history (adapt_reserved_capacity s) = latency_history s"
  by (simp_all add: adapt_reserved_capacity_def Let_def)

lemma adapt_reserved_capacity_bounds:
  assumes "0 \<le> init_capacity s" "0 \<le> reserved_capacity s"
    "reserved_capacity s \<le> 0.1 * init_capacity s"
  shows "0 \<le> reserved_capacity (adapt_reserved_capacity s)
       \<and> reserved_capacity (adapt_reserved_capacity s) \<le> 0.1 * init_capacity s"
proof -
  let ?i = "init_capacity s" and ?r = "reserved_capacity s"
  have up: "0 \<le> min (?i * 0.1) (?r + ?i * 0.02)" "min (?i * 0.1) (?r + ?i * 0.02) \<le> 0.1 * ?i"
    using assms by (simp_all add: min_def)
  have down: "0 \<le> max 0 (?r - ?i * 0.01)" "max 0 (?r - ?i * 0.01) \<le> 0.1 * ?i"
    using assms by (simp_all add: max_def)
  show ?thesis
    unfolding adapt_reserved_capacity_def Let_def
    using up down assms by (simp split: if_splits del: min_less_iff_conj max_less_iff_conj)
qed

lemma update_latency_stats_frame:
  "init_capacity (update_latency_stats l s) = init_capacity s"
  "delay_tolerance (update_latency_stats l s) = delay_tolerance s"
  by (simp_all add: update_latency_stats_def Let_def adapt_reserved_capacity_frame)


lemma update_latency_stats_bounds:
  assumes "0 \<le> init_capacity s" "0 \<le> reserved_capacity s"
    "reserved_capacity s \<le> 0.1 * init_capacity s"
  shows "0 \<le> reserved_capacity (update_latency_stats l s)
       \<and> reserved_capacity (update_latency_stats l s) \<le> 0.1 * init_capacity s"
proof -
  define s3 where "s3 = (let h1 = latency_history s @ [l];
          h2 = (if length h1 > 100 then tl h1 else h1);
          s1 = s\<lparr>latency_history := h2\<rparr>;
          s2 = (if h2 \<noteq> [] then s1\<lparr>avg_latency := sum_list h2 / real (length h2)\<rparr> else s1)
      in (if l > delay_tolerance s2
                then s2\<lparr>sla_violations := sla_violations s2 + 1\<rparr> else s2))"
  have eq: "update_latency_stats l s = adapt_reserved_capacity s3"
    by (simp add: update_latency_stats_def s3_def Let_def)
  have fr: "init_capacity s3 = init_capacity s" "reserved_capacity s3 = reserved_capacity s"
    by (simp_all add: s3_def Let_def)
  show ?thesis
    unfolding eq using adapt_reserved_capacity_bounds [of s3] assms by (simp add: fr)
qed

lemma update_latency_series_bounds:
  assumes "0 \<le> init_capacity s" "0 \<le> reserved_capacity s"
    "reserved_capacity s \<le> 0.1 * init_capacity s"
  shows "init_capacity (update_latency_series ls s) = init_capacity s
       \<and> delay_tolerance (update_latency_series ls s) = delay_tolerance s
       \<and> 0 \<le> reserved_capacity (update_latency_series ls s)
       \<and> reserved_capacity (update_latency_series ls s) \<le> 0.1 * init_capacity s"
  using assms
proof (induction ls arbitrary: s)
  case Nil
  then show ?case by (simp add: update_latency_series_def)
next
  case (Cons l ls)
  have step: "0 \<le> reserved_capacity (update_latency_stats l s)"
    "reserved_capacity (update_latency_stats l s) \<le> 0.1 * init_capacity (update_latency_stats l s)"
    using update_latency_stats_bounds [OF Cons.prems, of l]
    by (simp_all add: update_latency_stats_frame)
  have i: "0 \<le> init_capacity (update_latency_stats l s)"
    using Cons.prems by (simp add: update_latency_stats_frame)
  have "update_latency_series (l # ls) s = update_latency_series ls (update_latency_stats l s)"
    by (simp add: update_latency_series_def)
  then show ?case using Cons.IH [OF i step] by (simp add: update_latency_stats_frame)
qed

lemma update_latency_stats_step:
  "reserved_capacity (update_latency_stats l s) =
     (let s' = update_latency_stats l s; h = latency_history s';
          recent_avg = sum_list (drop (length h - 5) h) / 5
      in if 5 \<le> length h \<and> recent_avg > avg_latency s' \<and> recent_avg > 0.8 * delay_tolerance s
         then min (0.1 * init_capacity s) (reserved_capacity s + 0.02 * init_capacity s)
         else if 5 \<le> length h \<and> recent_avg < avg_latency s' \<and> recent_avg < 0.5 * delay_tolerance s
         then max 0 (reserved_capacity s - 0.01 * init_capacity s)
         else reserved_capacity s)"
proof -
  define s3 where "s3 = (let h1 = latency_history s @ [l];
          h2 = (if length h1 > 100 then tl h1 else h1);
          s1 = s\<lparr>latency_history := h2\<rparr>;
          s2 = (if h2 \<noteq> [] then s1\<lparr>avg_latency := sum_list h2 / real (length h2)\<rparr> else s1)
      in (if l > delay_tolerance s2
                then s2\<lparr>sla_violations := sla_violations s2 + 1\<rparr> else s2))"
  have eq: "update_latency_stats l s = adapt_reserved_capacity s3"
    by (simp add: update_latency_stats_def s3_def Let_def)
  have fr: "init_capacity s3 = init_capacity s" "reserved_capacity s3 = reserved_capacity s"
    "delay_tolerance s3 = delay_tolerance s"
    by (simp_all add: s3_def Let_def)
  have len: "5 \<le> length (latency_history s3) \<Longrightarrow>
    real (length (drop (length (latency_history s3) - 5) (latency_history s3))) = 5"
    by simp
  have "reserved_capacity (adapt_reserved_capacity s3) =
     (let h = latency_history s3;
          recent_avg = sum_list (drop (length h - 5) h) / 5
      in if 5 \<le> length h \<and> recent_avg > avg_latency s3 \<and> recent_avg > 0.8 * delay_tolerance s3
         then min (0.1 * init_capacity s3) (reserved_capacity s3 + 0.02 * init_capacity s3)
         else if 5 \<le> length h \<and> recent_avg < avg_latency s3 \<and> recent_avg < 0.5 * delay_tolerance s3
         then max 0 (reserved_capacity s3 - 0.01 * init_capacity s3)
         else reserved_capacity s3)"
    by (cases "5 \<le> length (latency_history s3)")
       (auto simp add: adapt_reserved_capacity_def Let_def mult.commute)
  then show ?thesis
    unfolding eq by (simp add: adapt_reserved_capacity_frame fr Let_def)
qed

text \<open>
  C6. Start from a slice whose \<open>init_capacity\<close> is not negative and whose reservation
  is 0, and feed it any series of measurements. Before and after every further call of
  \<open>update_latency_stats\<close> the reservation lies between 0 and \<open>0.1 * init_capacity\<close>.
  The call raises the reservation by \<open>0.02 * init_capacity\<close>, capped at
  \<open>0.1 * init_capacity\<close>, when the average of the last five measurements exceeds both the
  new overall average and \<open>0.8 * delay_tolerance\<close>; it lowers it by
  \<open>0.01 * init_capacity\<close>, floored at 0, when that average is below both the overall
  average and \<open>0.5 * delay_tolerance\<close>; otherwise it leaves it alone.
\<close>

theorem C6_reservation_bounds:
  assumes "0 \<le> init_capacity s0" and "reserved_capacity s0 = 0"
  shows "(let s = update_latency_series ls s0;
              s' = update_latency_stats l s;
              h = latency_history s';
              recent_avg = sum_list (drop (length h - 5) h) / 5
          in 0 \<le> reserved_capacity s \<and> reserved_capacity s \<le> 0.1 * init_capacity s0
           \<and> 0 \<le> reserved_capacity s' \<and> reserved_capacity s' \<le> 0.1 * init_capacity s0
           \<and> reserved_capacity s' =
               (if 5 \<le> length h \<and> recent_avg > avg_latency s'
                   \<and> recent_avg > 0.8 * delay_tolerance s0
                then min (0.1 * init_capacity s0) (reserved_capacity s + 0.02 * init_capacity s0)
                else if 5 \<le> length h \<and> recent_avg < avg_latency s'
                        \<and> recent_avg < 0.5 * delay_tolerance s0
                then max 0 (reserved_capacity s - 0.01 * init_capacity s0)
                else reserved_capacity s))"
proof -
  define s where "s = update_latency_series ls s0"
  have b0: "0 \<le> reserved_capacity s0" "reserved_capacity s0 \<le> 0.1 * init_capacity s0"
    using assms by simp_all
  have inv: "init_capacity s = init_capacity s0" "delay_tolerance s = delay_tolerance s0"
    "0 \<le> reserved_capacity s" "reserved_capacity s \<le> 0.1 * init_capacity s0"
    using update_latency_series_bounds [OF assms(1) b0, of ls] by (simp_all add: s_def)
  have i: "0 \<le> init_capacity s" using assms(1) inv(1) by simp
  have r: "reserved_capacity s \<le> 0.1 * init_capacity s" using inv by simp
  have step: "0 \<le> reserved_capacity (update_latency_stats l s)"
    "reserved_capacity (update_latency_stats l s) \<le> 0.1 * init_capacity s0"
    using update_latency_stats_bounds [OF i inv(3) r, of l] inv(1) by simp_all
  show ?thesis
    using inv step update_latency_stats_step [of l s]
    unfolding s_def [symmetric] Let_def by simp
qed

lemma raise_example:
  "reserved_capacity (update_latency_series [1, 10, 10, 10, 10, 10] fresh_slice) = 1 / 5"
  by (simp add: update_latency_series_def update_latency_stats_def adapt_reserved_capacity_def
        fresh_slice_def example_slice_def Let_def)

theorem C6_reservation_bounds_witness:
  "0 \<le> init_capacity fresh_slice \<and> reserved_capacity fresh_slice = 0
   \<and> 0 \<le> reserved_capacity (update_latency_stats 10 (update_latency_series [1, 10, 10, 10, 10] fresh_slice))
   \<and> reserved_capacity (update_latency_stats 10 (update_latency_series [1, 10, 10, 10, 10] fresh_slice))
        \<le> 0.1 * init_capacity fresh_slice"
  using C6_reservation_bounds [of fresh_slice "[1, 10, 10, 10, 10]" 10]
  by (simp add: Let_def fresh_slice_def example_slice_def)

section \<open>The latency history\<close>

lemma adapt_reserved_capacity_history:
  "latency_history (adapt_reserved_capacity s) = latency_history s"
  by (simp add: adapt_reserved_capacity_def Let_def)

lemma update_latency_stats_history:
  "latency_history (update_latency_stats l s) =
     (if length (latency_history s) + 1 > 100 then tl (latency_history s @ [l])
      else latency_history s @ [l])"
  by (simp add: update_latency_stats_def Let_def adapt_reserved_capacity_history)

text \<open>
  C7. If the latency history holds at most 100 entries before \<open>update_latency_stats\<close>,
  it holds at most 100 after it: the new measurement is appended and, when that makes 101,
  the oldest entry is dropped.
\<close>

theorem C7_history_bound:
  assumes "length (latency_history s) \<le> 100"
  shows "length (latency_history (update_latency_stats l s)) \<le> 100
       \<and> latency_history (update_latency_stats l s)
           = drop (length (latency_history s) + 1 - 100) (latency_history s @ [l])"
proof (cases "length (latency_history s) = 100")
  case True
  then have "latency_history s \<noteq> []" by auto
  then show ?thesis using True
    by (simp add: update_latency_stats_history drop_Suc tl_append2)
next
  case False
  with assms have "length (latency_history s) < 100" by simp
  then show ?thesis by (simp add: update_latency_stats_history)
qed

theorem C7_history_bound_witness:
  "length (latency_history (fresh_slice\<lparr>latency_history := replicate 100 5\<rparr>)) \<le> 100
   \<and> length (latency_history
         (update_latency_stats 7 (fresh_slice\<lparr>latency_history := replicate 100 5\<rparr>))) \<le> 100"
  using C7_history_bound [of "fresh_slice\<lparr>latency_history := replicate 100 5\<rparr>" 7]
  by simp

section \<open>Block and handover accounting\<close>

lemma incr_last_eff:
  "incr_last xs = Inr ys \<Longrightarrow> last ys = last xs + 1 \<and> butlast ys = butlast xs \<and> xs \<noteq> []"
  by (auto simp add: incr_last_def split: if_splits)

lemma incr_connect_attempt_eff:
  assumes "incr_connect_attempt c st = Inr st1"
  shows "area st1 = area st" "block_count st1 = block_count st"
    "stats_handover_count st1 = stats_handover_count st"
    "last (connect_attempt st1) = last (connect_attempt st) + (if is_client_in_coverage st c then 1 else 0)"
  using assms
  by (auto simp add: incr_connect_attempt_def dest: incr_last_eff split: if_splits sum.splits)

lemma incr_block_count_eff:
  assumes "incr_block_count c st = Inr st1"
  shows "area st1 = area st" "connect_attempt st1 = connect_attempt st"
    "stats_handover_count st1 = stats_handover_count st"
    "last (block_count st1) = last (block_count st) + (if is_client_in_coverage st c then 1 else 0)"
  using assms
  by (auto simp add: incr_block_count_def dest: incr_last_eff split: if_splits sum.splits)

lemma incr_handover_count_eff:
  assumes "incr_handover_count c st = Inr st1"
  shows "area st1 = area st" "connect_attempt st1 = connect_attempt st"
    "block_count st1 = block_count st"
    "last (stats_handover_count st1) = last (stats_handover_count st) + (if is_client_in_coverage st c then 1 else 0)"
  using assms
  by (auto simp add: incr_handover_count_def dest: incr_last_eff split: if_splits sum.splits)

lemma record_latency_counters:
  "connect_attempt (record_latency t c l st) = connect_attempt st"
  "block_count (record_latency t c l st) = block_count st"
  "stats_handover_count (record_latency t c l st) = stats_handover_count st"
  by (simp_all add: record_latency_def Let_def)

lemma client_update_latency_stats_counters:
  assumes "client_update_latency_stats l c sm = Inr (c', sm')"
  shows "connect_attempt (stat_collector sm') = connect_attempt (stat_collector sm)"
    "block_count (stat_collector sm') = block_count (stat_collector sm)"
    "stats_handover_count (stat_collector sm') = stats_handover_count (stat_collector sm)"
  using assms
  by (auto simp add: client_update_latency_stats_def Let_def record_latency_counters split: if_splits)

lemma set_slice_stat_collector:
  "stat_collector (set_slice c s sm) = stat_collector sm"
  by (simp add: set_slice_def split: option.splits)

lemma assign_closest_base_station_position:
  assumes "assign_closest_base_station u ex c sm = Inr c1"
  shows "client_x c1 = client_x c" "client_y c1 = client_y c"
  using assms
  by (auto simp add: assign_closest_base_station_def split: sum.splits option.splits)

lemma is_client_in_coverage_cong:
  "area st' = area st \<Longrightarrow> client_x c' = client_x c \<Longrightarrow> client_y c' = client_y c
   \<Longrightarrow> is_client_in_coverage st' c' = is_client_in_coverage st c"
  by (simp add: is_client_in_coverage_def)

lemma handover_or_block_eff:
  assumes "handover_or_block c2 st1 sm = Inr (r, c', sm')"
  shows "stat_collector sm' = st1
       \<or> (incr_handover_count c2 st1 = Inr (stat_collector sm')
            \<and> block_count (stat_collector sm') = block_count st1)
       \<or> (incr_block_count c2 st1 = Inr (stat_collector sm')
            \<and> stats_handover_count (stat_collector sm') = stats_handover_count st1)"
  using assms
  by (auto simp add: handover_or_block_def dest: incr_handover_count_eff incr_block_count_eff
           split: sum.splits option.splits bool.splits)

lemma connect_refused_form:
  assumes "connect u c sm = Inr (r, c', sm')" and "\<not> connected c"
    and "get_slice c sm = Inr (Some s)" and "incr_connect_attempt c (stat_collector sm) = Inr st1"
    and "is_avaliable s = Inr False"
  shows "\<exists>c2. client_x c2 = client_x c \<and> client_y c2 = client_y c
              \<and> handover_or_block c2 st1 sm = Inr (r, c', sm')"
proof -
  from assms obtain old_bs c1 where
    asg: "assign_closest_base_station u (Some [bs_pk (base_stations sm ! old_bs)]) c sm = Inr c1"
    and ob: "base_station c = Some old_bs"
    by (auto simp add: connect_def Let_def split: sum.splits option.splits)
  note pos = assign_closest_base_station_position [OF asg]
  let ?c2 = "c1\<lparr>handover_latencies := handover_latencies c1 @ [now sm - now sm]\<rparr>"
  show ?thesis
  proof (cases "base_station c1")
    case None
    with assms asg ob have "handover_or_block c1 st1 sm = Inr (r, c', sm')"
      by (simp add: connect_def Let_def)
    then show ?thesis using pos by (intro exI [of _ c1]) simp
  next
    case (Some b)
    show ?thesis
    proof (cases "b = old_bs")
      case True
      with Some assms asg ob have "handover_or_block c1 st1 sm = Inr (r, c', sm')"
        by (simp add: connect_def Let_def)
      then show ?thesis using pos by (intro exI [of _ c1]) simp
    next
      case False
      with Some assms asg ob have "handover_or_block ?c2 st1 sm = Inr (r, c', sm')"
        by (simp add: connect_def Let_def)
      then show ?thesis using pos by (intro exI [of _ ?c2]) simp
    qed
  qed
qed

lemma connect_counters:
  assumes "connect u c sm = Inr (r, c', sm')"
  shows "\<exists>a b h :: real.
           (a = 0 \<or> a = 1) \<and> (b = 0 \<or> b = 1) \<and> (h = 0 \<or> h = 1) \<and> b + h \<le> a
         \<and> last (connect_attempt (stat_collector sm')) = last (connect_attempt (stat_collector sm)) + a
         \<and> last (block_count (stat_collector sm')) = last (block_count (stat_collector sm)) + b
         \<and> last (stats_handover_count (stat_collector sm'))
             = last (stats_handover_count (stat_collector sm)) + h"
proof (cases "connected c")
  case True
  with assms have "sm' = sm" by (auto simp add: connect_def split: sum.splits)
  then show ?thesis by auto
next
  case False
  from assms False obtain st1 s av where
    gs: "get_slice c sm = Inr (Some s)" and
    st1: "incr_connect_attempt c (stat_collector sm) = Inr st1" and
    av: "is_avaliable s = Inr av"
    by (auto simp add: connect_def split: sum.splits option.splits)
  note e1 = incr_connect_attempt_eff [OF st1]
  let ?a = "if is_client_in_coverage (stat_collector sm) c then 1 else 0 :: real"
  show ?thesis
  proof (cases av)
    case True
    with assms False gs st1 av obtain c1 sm1 c2 where
      upd: "client_update_latency_stats (now sm - request_start_time c) c1 sm1 = Inr (c2, sm')"
      and sm1: "sm1 = set_slice c (s\<lparr>connected_users := connected_users s + 1\<rparr>) (sm\<lparr>stat_collector := st1\<rparr>)"
      by (auto simp add: connect_def Let_def split: sum.splits option.splits)
    have "stat_collector sm1 = st1" by (simp add: sm1 set_slice_stat_collector)
    with client_update_latency_stats_counters [OF upd] e1
    have "last (connect_attempt (stat_collector sm')) = last (connect_attempt (stat_collector sm)) + ?a"
      "block_count (stat_collector sm') = block_count (stat_collector sm)"
      "stats_handover_count (stat_collector sm') = stats_handover_count (stat_collector sm)"
      by simp_all
    then show ?thesis
      by (intro exI [of _ ?a] exI [of _ 0]) auto
  next
    case Fls: False
    with av have rej: "is_avaliable s = Inr False" by simp
    from connect_refused_form [OF assms False gs st1 rej] obtain c2 where
      pos: "client_x c2 = client_x c" "client_y c2 = client_y c" and
      hb: "handover_or_block c2 st1 sm = Inr (r, c', sm')" by blast
    have cov: "is_client_in_coverage st1 c2 = is_client_in_coverage (stat_collector sm) c"
      by (rule is_client_in_coverage_cong) (simp_all add: e1 pos)
    from handover_or_block_eff [OF hb]
    consider (unc) "stat_collector sm' = st1"
      | (ho) "incr_handover_count c2 st1 = Inr (stat_collector sm')"
      | (bl) "incr_block_count c2 st1 = Inr (stat_collector sm')"
      by blast
    then show ?thesis
    proof cases
      case unc
      with e1 show ?thesis by (intro exI [of _ ?a] exI [of _ 0]) auto
    next
      case ho
      note e2 = incr_handover_count_eff [OF ho]
      show ?thesis
        using e1 e2 cov
        by (intro exI [of _ ?a] exI [of _ 0] exI [of _ ?a]) auto
    next
      case bl
      note e2 = incr_block_count_eff [OF bl]
      show ?thesis
        using e1 e2 cov
        by (intro exI [of _ ?a] exI [of _ ?a] exI [of _ 0]) auto
    qed
  qed
qed

lemma with_counters_simps:
  "connect_attempt (with_counters cur st) = connect_attempt cur"
  "block_count (with_counters cur st) = block_count cur"
  "stats_handover_count (with_counters cur st) = stats_handover_count cur"
  by (simp_all add: with_counters_def)

lemma connect_calls_accounted:
  assumes "connect_calls u calls cur = Inr st'"
    and "last (block_count cur) + last (stats_handover_count cur) \<le> last (connect_attempt cur)"
  shows "last (block_count st') + last (stats_handover_count st') \<le> last (connect_attempt st')"
  using assms
proof (induction calls arbitrary: cur)
  case Nil
  then show ?case by simp
next
  case (Cons call calls)
  obtain c sm where call: "call = (c, sm)" by (cases call)
  let ?sm = "sm\<lparr>stat_collector := with_counters cur (stat_collector sm)\<rparr>"
  from Cons.prems(1) call obtain r c' sm' where
    one: "connect u c ?sm = Inr (r, c', sm')" and
    rest: "connect_calls u calls (stat_collector sm') = Inr st'"
    by (auto split: sum.splits)
  from connect_counters [OF one] Cons.prems(2)
  have "last (block_count (stat_collector sm')) + last (stats_handover_count (stat_collector sm'))
          \<le> last (connect_attempt (stat_collector sm'))"
    by (auto simp add: with_counters_simps)
  from Cons.IH [OF rest this] show ?case .
qed

lemma reset_counters_last:
  "last (connect_attempt (reset_counters st)) = 0"
  "last (block_count (reset_counters st)) = 0"
  "last (stats_handover_count (reset_counters st)) = 0"
  by (simp_all add: reset_counters_def)

text \<open>
  C8. In every aggregation period, which starts with the three counters at 0 and consists
  of calls of \<open>connect\<close>, the block count plus the handover count is at most the
  number of connect attempts. Each call of \<open>connect\<close> that returns adds 0 or 1 to the
  attempt counter, 0 or 1 to the block counter and 0 or 1 to the handover counter, and
  what it adds to the last two together is at most what it adds to the first.
\<close>

theorem C8_block_handover_accounting:
  "(connect_calls u calls (reset_counters st) = Inr st' \<longrightarrow>
      last (block_count st') + last (stats_handover_count st') \<le> last (connect_attempt st'))
   \<and> (connect u c sm = Inr (r, c', sm') \<longrightarrow>
        (\<exists>a b h :: real.
           (a = 0 \<or> a = 1) \<and> (b = 0 \<or> b = 1) \<and> (h = 0 \<or> h = 1) \<and> b + h \<le> a
         \<and> last (connect_attempt (stat_collector sm')) = last (connect_attempt (stat_collector sm)) + a
         \<and> last (block_count (stat_collector sm')) = last (block_count (stat_collector sm)) + b
         \<and> last (stats_handover_count (stat_collector sm'))
             = last (stats_handover_count (stat_collector sm)) + h))"
proof (intro conjI impI)
  assume "connect_calls u calls (reset_counters st) = Inr st'"
  then show "last (block_count st') + last (stats_handover_count st') \<le> last (connect_attempt st')"
    by (rule connect_calls_accounted) (simp add: reset_counters_last)
next
  assume "connect u c sm = Inr (r, c', sm')"
  then show "\<exists>a b h :: real.
           (a = 0 \<or> a = 1) \<and> (b = 0 \<or> b = 1) \<and> (h = 0 \<or> h = 1) \<and> b + h \<le> a
         \<and> last (connect_attempt (stat_collector sm')) = last (connect_attempt (stat_collector sm)) + a
         \<and> last (block_count (stat_collector sm')) = last (block_count (stat_collector sm)) + b
         \<and> last (stats_handover_count (stat_collector sm'))
             = last (stats_handover_count (stat_collector sm)) + h"
    by (rule connect_counters)
qed

lemma example_assign:
  "assign_closest_base_station example_utils (Some [0]) example_client example_sim
     = Inr (example_client\<lparr>base_station := Some (Suc 0)\<rparr>)"
  by (simp add: assign_closest_base_station_def example_utils_def example_client_def
        example_sim_def fresh_slice_def example_slice_def example_container_def)


lemma example_client_fields:
  "connected example_client = False" "base_station example_client = Some 0"
  "client_x example_client = 1" "client_y example_client = 0"
  "handover_latencies example_client = []" "handover_count example_client = 0"
  by (simp_all add: example_client_def)

lemma example_sim_fields:
  "stat_collector example_sim = reset_counters example_stats"
  "bs_pk (base_stations example_sim ! 0) = 0" "now example_sim = 3"
  by (simp_all add: example_sim_def)

lemma example_get_slice_moved:
  "get_slice (example_client\<lparr>base_station := Some (Suc 0), handover_latencies := [0]\<rparr>) example_sim
     = Inr (Some fresh_slice)"
  by (simp add: get_slice_def example_client_def example_sim_def)

lemma example_incr:
  "incr_connect_attempt example_client (reset_counters example_stats)
     = Inr (example_stats\<lparr>connect_attempt := [1], block_count := [0], stats_handover_count := [0]\<rparr>)"
  "incr_handover_count (example_client\<lparr>base_station := Some (Suc 0), handover_latencies := [0]\<rparr>)
       (example_stats\<lparr>connect_attempt := [1], block_count := [0], stats_handover_count := [0]\<rparr>)
     = Inr example_counted"
  by (simp_all add: incr_connect_attempt_def incr_handover_count_def incr_last_def
        is_client_in_coverage_def reset_counters_def example_counted_def
        example_client_def example_stats_def)

lemma example_connect:
  "connect example_utils example_client example_sim =
     Inr (Some False,
          example_client\<lparr>base_station := Some (Suc 0), handover_latencies := [0], handover_count := Suc 0\<rparr>,
          example_sim\<lparr>stat_collector := example_counted\<rparr>)"
  by (simp add: connect_def example_get_slice example_refused example_free example_assign
        handover_or_block_def example_client_fields example_sim_fields example_incr
        example_get_slice_moved Let_def)

theorem C8_block_handover_accounting_witness:
  "connect_calls example_utils [(example_client, example_sim)] (reset_counters example_stats)
     = Inr example_counted
   \<and> last (block_count example_counted) + last (stats_handover_count example_counted)
       \<le> last (connect_attempt example_counted)"
proof -
  have sm: "example_sim\<lparr>stat_collector :=
              with_counters (reset_counters example_stats) (stat_collector example_sim)\<rparr> = example_sim"
    by (simp add: with_counters_def example_sim_def reset_counters_def)
  have run: "connect_calls example_utils [(example_client, example_sim)] (reset_counters example_stats)
     = Inr example_counted"
    by (simp add: sm example_connect)
  show ?thesis
    using run C8_block_handover_accounting [of example_utils "[(example_client, example_sim)]"
        example_stats example_counted]
    by simp
qed

section \<open>Releasing nothing\<close>

text \<open>
  C9. For a client whose \<open>last_usage\<close> is 0 and whose slice reference resolves,
  \<open>release_consume\<close> returns without raising and changes nothing: not the client (its
  counters, \<open>usage_remaining\<close> and latency series among its fields) and not the
  simulation state (the slice's container among its parts). The container's \<open>put\<close> is
  not called: in this model \<open>put(0)\<close> raises \<open>ValueError\<close>.
\<close>

theorem C9_release_zero_noop:
  assumes "last_usage c = 0" and "get_slice c sm = Inr so"
  shows "release_consume c sm = Inr (c, sm)"
  using assms by (simp add: release_consume_def)

theorem C9_release_zero_noop_witness:
  "last_usage example_client = 0
   \<and> get_slice example_client example_sim = Inr (Some (example_slice\<lparr>connected_users := 9\<rparr>))
   \<and> release_consume example_client example_sim = Inr (example_client, example_sim)"
  using C9_release_zero_noop [of example_client example_sim "Some (example_slice\<lparr>connected_users := 9\<rparr>)"]
    example_get_slice
  by (simp add: example_client_def)

section \<open>Disconnecting a disconnected client\<close>

text \<open>
  C10. For a client with \<open>connected = False\<close> whose slice reference resolves,
  \<open>disconnect\<close> returns \<open>True\<close> and changes nothing: no user count is decremented,
  \<open>connected\<close> stays false, and the container and \<open>last_usage\<close> are untouched.
\<close>

theorem C10_disconnect_disconnected:
  assumes "connected c = False" and "get_slice c sm = Inr so"
  shows "disconnect c sm = Inr (True, c, sm)"
  using assms by (simp add: disconnect_def)

theorem C10_disconnect_disconnected_witness:
  "connected example_client = False
   \<and> get_slice example_client example_sim = Inr (Some (example_slice\<lparr>connected_users := 9\<rparr>))
   \<and> disconnect example_client example_sim = Inr (True, example_client, example_sim)"
  using C10_disconnect_disconnected [of example_client example_sim "Some (example_slice\<lparr>connected_users := 9\<rparr>)"]
    example_get_slice
  by (simp add: example_client_def)

section \<open>The allocator and the consume step\<close>

text \<open>
  C1 (as stated, refuted). A connected client that carries an \<open>allocated_bandwidth\<close>
  attribute has 20 units to consume on a slice with capacity 10, a guarantee of 1 and one
  user. The allocator, run at the client's request time, writes \<open>allocated_bandwidth = 1\<close>,
  which is what the specification's consume phase would take. The Lock phase that follows
  takes 10: \<open>start_consume\<close> computes the amount from \<open>get_consumable_share()\<close> and
  \<open>usage_remaining\<close> and never reads the field.
\<close>

theorem C1_counterexample:
  "dynamic_resource_allocation 3 [busy_client\<lparr>allocated_bandwidth := Some 0\<rparr>]
       (fresh_slice\<lparr>connected_users := 1\<rparr>)
     = Inr ([busy_client\<lparr>allocated_bandwidth := Some 1\<rparr>],
            fresh_slice\<lparr>connected_users := 1, active_clients := [0]\<rparr>)
   \<and> consume_amount_spec (busy_client\<lparr>allocated_bandwidth := Some 1\<rparr>)
         (fresh_slice\<lparr>connected_users := 1, active_clients := [0]\<rparr>) = 1
   \<and> map_sum id (\<lambda>(c', sm'). last_usage c')
         (iter_lock example_utils 0 0 (busy_client\<lparr>allocated_bandwidth := Some 1\<rparr>)
            (single_sim (fresh_slice\<lparr>connected_users := 1, active_clients := [0]\<rparr>)))
       = Inr 10"
proof (intro conjI)
  show "dynamic_resource_allocation 3 [busy_client\<lparr>allocated_bandwidth := Some 0\<rparr>]
       (fresh_slice\<lparr>connected_users := 1\<rparr>)
     = Inr ([busy_client\<lparr>allocated_bandwidth := Some 1\<rparr>],
            fresh_slice\<lparr>connected_users := 1, active_clients := [0]\<rparr>)"
    by (simp add: dynamic_resource_allocation_def prioritize_def Let_def busy_client_fields
          fresh_slice_fields example_container_def)
  show "consume_amount_spec (busy_client\<lparr>allocated_bandwidth := Some 1\<rparr>)
         (fresh_slice\<lparr>connected_users := 1, active_clients := [0]\<rparr>) = 1"
    by (simp add: consume_amount_spec_def)
  let ?c = "busy_client\<lparr>allocated_bandwidth := Some 1\<rparr>"
  let ?s = "fresh_slice\<lparr>connected_users := 1, active_clients := [0]\<rparr>"
  have gs: "get_slice ?c (single_sim ?s) = Inr (Some ?s)"
    by (simp add: get_slice_def busy_client_def example_client_def single_sim_def)
  have "iter_lock example_utils 0 0 ?c (single_sim ?s) = start_consume ?c (single_sim ?s)"
    by (rule iter_lock_consume [OF _ _ gs]) (simp_all add: busy_client_fields)
  then show "map_sum id (\<lambda>(c', sm'). last_usage c') (iter_lock example_utils 0 0 ?c (single_sim ?s)) = Inr 10"
    by (simp add: start_consume_result [OF gs refl] crowded_share fresh_slice_fields
          busy_client_fields container_get_def example_container_def)
qed

text \<open>
  C1 (amended). For every connected client in the Lock phase with a pending request, a
  resolvable slice and a positive consumable share, the consume step returns, and the
  amount it consumes is \<open>min(get_consumable_share(), usage_remaining)\<close>, multiplied by
  1.2 and capped again at \<open>usage_remaining\<close> when \<open>delay_tolerance < 10\<close>. The amount
  and the resulting state do not depend on \<open>allocated_bandwidth\<close>: with any value of the
  field, present or absent, the step does the same and leaves the field as it was.
\<close>

theorem C1_consume_ignores_allocation:
  assumes con: "connected c" and ur: "usage_remaining c > 0"
    and gs: "get_slice c sm = Inr (Some s)" and sh: "get_consumable_share s > 0"
  shows "\<exists>c' sm'. iter_lock u r usage c sm = Inr (c', sm')
           \<and> last_usage c' =
               (let amount0 = min (get_consumable_share s) (usage_remaining c)
                in if delay_tolerance s < 10
                   then min (amount0 * 1.2) (usage_remaining c) else amount0)
           \<and> iter_lock u r usage (c\<lparr>allocated_bandwidth := a\<rparr>) sm
               = Inr (c'\<lparr>allocated_bandwidth := a\<rparr>, sm')"
proof -
  define amount where "amount =
    (if delay_tolerance s < 10
     then min (min (get_consumable_share s) (usage_remaining c) * 1.2) (usage_remaining c)
     else min (get_consumable_share s) (usage_remaining c))"
  have pos: "0 < amount" using ur sh by (simp add: amount_def Let_def)
  then obtain k where k: "container_get amount (capacity s) = Inr k"
    using container_get_returns by blast
  let ?c' = "c\<lparr>request_start_time := now sm, last_usage := amount\<rparr>"
  let ?sm' = "set_slice c (s\<lparr>capacity := k\<rparr>) sm"
  have one: "iter_lock u r usage c sm = Inr (?c', ?sm')"
    using k by (simp add: iter_lock_consume [OF con ur gs] start_consume_result [OF gs amount_def])
  have gs': "get_slice (c\<lparr>allocated_bandwidth := a\<rparr>) sm = Inr (Some s)"
    using gs by (simp add: get_slice_frame)
  have "iter_lock u r usage (c\<lparr>allocated_bandwidth := a\<rparr>) sm
          = start_consume (c\<lparr>allocated_bandwidth := a\<rparr>) sm"
    by (rule iter_lock_consume [OF _ _ gs']) (use con ur in simp_all)
  then have two: "iter_lock u r usage (c\<lparr>allocated_bandwidth := a\<rparr>) sm
          = Inr (?c'\<lparr>allocated_bandwidth := a\<rparr>, ?sm')"
    using k amount_def by (simp add: start_consume_result [OF gs', of amount] set_slice_frame)
  show ?thesis
    using one two by (intro exI [of _ ?c'] exI [of _ ?sm']) (simp add: amount_def)
qed

theorem C1_consume_ignores_allocation_witness:
  "connected busy_client \<and> usage_remaining busy_client > 0
   \<and> get_slice busy_client (single_sim (fresh_slice\<lparr>connected_users := 2\<rparr>))
        = Inr (Some (fresh_slice\<lparr>connected_users := 2\<rparr>))
   \<and> get_consumable_share (fresh_slice\<lparr>connected_users := 2\<rparr>) > 0
   \<and> (\<exists>c' sm'. iter_lock example_utils 0 0 busy_client
                    (single_sim (fresh_slice\<lparr>connected_users := 2\<rparr>)) = Inr (c', sm')
          \<and> last_usage c' = 6
          \<and> iter_lock example_utils 0 0 (busy_client\<lparr>allocated_bandwidth := Some 1\<rparr>)
                 (single_sim (fresh_slice\<lparr>connected_users := 2\<rparr>))
               = Inr (c'\<lparr>allocated_bandwidth := Some 1\<rparr>, sm'))"
proof -
  let ?s = "fresh_slice\<lparr>connected_users := 2\<rparr>"
  have h: "connected busy_client" "usage_remaining busy_client > 0"
    "get_slice busy_client (single_sim ?s) = Inr (Some ?s)" "get_consumable_share ?s > 0"
    by (simp_all add: busy_client_fields single_get_slice crowded_share)
  show ?thesis
    using h C1_consume_ignores_allocation [OF h, of example_utils 0 0 "Some 1"]
    by (simp add: crowded_share busy_client_fields fresh_slice_fields)
qed

section \<open>The consume amount and the container level\<close>

text \<open>
  C3 (as stated, refuted). Two connected clients share a slice of QoS class 1 with
  capacity 10, so the consumable share is 6. The first Lock phase takes 6 and leaves a
  level of 4; the second client's Lock phase passes 6 to \<open>capacity.get\<close> all the same,
  which is more than the level. The request is queued and the level stays at 4.
\<close>

theorem C3_counterexample:
  "iter_lock example_utils 0 0 busy_client (single_sim (fresh_slice\<lparr>connected_users := 2\<rparr>))
     = Inr (busy_client\<lparr>last_usage := 6\<rparr>,
            single_sim (fresh_slice\<lparr>connected_users := 2,
                                    capacity := (example_container 10)\<lparr>level := 4\<rparr>\<rparr>))
   \<and> level (capacity (fresh_slice\<lparr>connected_users := 2,
                                   capacity := (example_container 10)\<lparr>level := 4\<rparr>\<rparr>)) = 4
   \<and> iter_lock example_utils 0 0 (busy_client\<lparr>pk := 1\<rparr>)
         (single_sim (fresh_slice\<lparr>connected_users := 2,
                                 capacity := (example_container 10)\<lparr>level := 4\<rparr>\<rparr>))
     = Inr (busy_client\<lparr>pk := 1, last_usage := 6\<rparr>,
            single_sim (fresh_slice\<lparr>connected_users := 2,
                                    capacity := (example_container 10)\<lparr>level := 4, get_queue := [6]\<rparr>\<rparr>))"
proof (intro conjI)
  let ?s4 = "fresh_slice\<lparr>connected_users := 2, capacity := (example_container 10)\<lparr>level := 4\<rparr>\<rparr>"
  show "iter_lock example_utils 0 0 busy_client (single_sim (fresh_slice\<lparr>connected_users := 2\<rparr>))
     = Inr (busy_client\<lparr>last_usage := 6\<rparr>, single_sim ?s4)"
    by (rule busy_client_consumes)
  show "level (capacity ?s4) = 4" by simp
  let ?c = "busy_client\<lparr>pk := 1\<rparr>"
  have gs4: "get_slice ?c (single_sim ?s4) = Inr (Some ?s4)"
    by (simp add: single_sim_fields)
  have "iter_lock example_utils 0 0 ?c (single_sim ?s4) = start_consume ?c (single_sim ?s4)"
    by (rule iter_lock_consume [OF _ _ gs4]) (simp_all add: busy_client_fields)
  also have "\<dots> = Inr (busy_client\<lparr>pk := 1, last_usage := 6\<rparr>,
            single_sim (fresh_slice\<lparr>connected_users := 2,
                                    capacity := (example_container 10)\<lparr>level := 4, get_queue := [6]\<rparr>\<rparr>))"
    unfolding start_consume_result [OF gs4 refl]
    by (simp add: crowded_share fresh_slice_fields
          busy_client_fields container_get_def example_container_def single_sim_fields
          busy_client_restart)
  finally show "iter_lock example_utils 0 0 ?c (single_sim ?s4)
     = Inr (busy_client\<lparr>pk := 1, last_usage := 6\<rparr>,
            single_sim (fresh_slice\<lparr>connected_users := 2,
                                    capacity := (example_container 10)\<lparr>level := 4, get_queue := [6]\<rparr>\<rparr>))" .
qed

text \<open>
  C3 (amended). For every connected client whose Lock phase consumes, the amount passed
  to \<open>capacity.get\<close> is positive, at most \<open>usage_remaining\<close> and at most
  \<open>1.2 * get_consumable_share()\<close>; it is not bounded by the container's level. The level
  does not become negative: with no request pending, an amount of at most the level is
  taken off the level, and a larger amount is queued while the level stays as it is.
\<close>

theorem C3_consume_amount_bound:
  assumes con: "connected c" and ur: "usage_remaining c > 0"
    and gs: "get_slice c sm = Inr (Some s)"
    and run: "iter_lock u r usage c sm = Inr (c', sm')"
    and lv: "0 \<le> level (capacity s)"
  shows "0 < last_usage c' \<and> last_usage c' \<le> usage_remaining c
       \<and> last_usage c' \<le> 1.2 * get_consumable_share s
       \<and> (\<exists>s'. get_slice c' sm' = Inr (Some s') \<and> 0 \<le> level (capacity s')
              \<and> (get_queue (capacity s) = [] \<longrightarrow>
                   (if last_usage c' \<le> level (capacity s)
                    then level (capacity s') = level (capacity s) - last_usage c'
                         \<and> get_queue (capacity s') = []
                    else level (capacity s') = level (capacity s)
                         \<and> get_queue (capacity s') = [last_usage c'])))"
proof -
  define amount where "amount =
    (if delay_tolerance s < 10
     then min (min (get_consumable_share s) (usage_remaining c) * 1.2) (usage_remaining c)
     else min (get_consumable_share s) (usage_remaining c))"
  from run have sc: "start_consume c sm = Inr (c', sm')"
    by (simp add: iter_lock_consume [OF con ur gs])
  then obtain k where k: "container_get amount (capacity s) = Inr k"
    and c': "c' = c\<lparr>request_start_time := now sm, last_usage := amount\<rparr>"
    and sm': "sm' = set_slice c (s\<lparr>capacity := k\<rparr>) sm"
    by (auto simp add: start_consume_result [OF gs amount_def] split: sum.splits)
  note g = container_get_level [OF k lv]
  have le_ur: "amount \<le> usage_remaining c" by (simp add: amount_def Let_def)
  have le_sh: "amount \<le> 1.2 * get_consumable_share s"
  proof (cases "delay_tolerance s < 10")
    case True
    then have "amount \<le> min (get_consumable_share s) (usage_remaining c) * 1.2"
      by (simp add: amount_def Let_def)
    also have "\<dots> \<le> get_consumable_share s * 1.2" by simp
    finally show ?thesis by (simp add: mult.commute)
  next
    case False
    then have "amount \<le> get_consumable_share s" by (simp add: amount_def Let_def)
    moreover from this g(1) have "0 < get_consumable_share s" by linarith
    ultimately show ?thesis by simp
  qed
  have "get_slice c' sm' = Inr (Some (s\<lparr>capacity := k\<rparr>))"
    unfolding c' sm' using get_set_slice [OF gs] by (simp add: get_slice_frame)
  then show ?thesis
    using g le_ur le_sh by (simp add: c')
qed

theorem C3_consume_amount_bound_witness:
  "connected busy_client \<and> usage_remaining busy_client > 0
   \<and> get_slice busy_client (single_sim (fresh_slice\<lparr>connected_users := 2\<rparr>))
        = Inr (Some (fresh_slice\<lparr>connected_users := 2\<rparr>))
   \<and> iter_lock example_utils 0 0 busy_client (single_sim (fresh_slice\<lparr>connected_users := 2\<rparr>))
        = Inr (busy_client\<lparr>last_usage := 6\<rparr>,
               single_sim (fresh_slice\<lparr>connected_users := 2,
                                       capacity := (example_container 10)\<lparr>level := 4\<rparr>\<rparr>))
   \<and> 0 \<le> level (capacity (fresh_slice\<lparr>connected_users := 2\<rparr>))
   \<and> last_usage (busy_client\<lparr>last_usage := 6\<rparr>) \<le> usage_remaining busy_client
   \<and> last_usage (busy_client\<lparr>last_usage := 6\<rparr>)
        \<le> 1.2 * get_consumable_share (fresh_slice\<lparr>connected_users := 2\<rparr>)"
proof -
  let ?s = "fresh_slice\<lparr>connected_users := 2\<rparr>"
  have gs: "get_slice busy_client (single_sim ?s) = Inr (Some ?s)"
    by (simp add: single_get_slice)
  have h: "connected busy_client" "usage_remaining busy_client > 0"
    "0 \<le> level (capacity ?s)"
    by (simp_all add: busy_client_fields fresh_slice_fields example_container_def)
  show ?thesis
    using h gs busy_client_consumes
      C3_consume_amount_bound [OF h(1,2) gs busy_client_consumes h(3)]
    by simp
qed

end
